theory Spec2Isabelle
  imports Complex_Main
begin

section \<open>Numbers and dates of the host language\<close>

text \<open>
  The analytics hook \<^verbatim>\<open>useAnalytics\<close> (src/hooks/useAnalytics.js) and the forecaster
  \<^verbatim>\<open>calculateForecast\<close> of the EnhancedAnalytics component compute with JavaScript numbers
  and \<^verbatim>\<open>Date\<close> objects.

  \<^item> An amount of money is a JavaScript number. It is modelled as an exact rational, so the
    rounding error of binary floating point is outside the model; the decimal rounding that
    the code asks for explicitly (\<^verbatim>\<open>toFixed(2)\<close>) is modelled.
  \<^item> A \<^verbatim>\<open>Date\<close> object is its time value: the milliseconds since the epoch, or NaN for an
    Invalid Date. It is modelled as \<open>int option\<close>, \<open>None\<close> being NaN.
  \<^item> The clock is a parameter: a function that calls \<^verbatim>\<open>new Date()\<close> takes the time value
    \<open>now\<close> that the call returns.
  \<^item> No function of the engine throws: each is a total function with a plain result.
\<close>

type_synonym number = rat

type_synonym date = "int option"

text \<open>\<^verbatim>\<open>TimeClip\<close>: a time value further than 8.64e15 ms from the epoch is not a date.\<close>

definition TimeClip :: "int \<Rightarrow> date" where
  "TimeClip t = (if \<bar>t\<bar> \<le> 8640000000000000 then Some t else None)"

text \<open>\<^verbatim>\<open>new Date(v)\<close> for a number (or NaN) or for another \<^verbatim>\<open>Date\<close>.\<close>

definition new_Date :: "int option \<Rightarrow> date" where
  "new_Date v = (case v of None \<Rightarrow> None | Some t \<Rightarrow> TimeClip t)"

definition getTime :: "date \<Rightarrow> int option" where
  "getTime d = d"

text \<open>\<^verbatim>\<open>x + k\<close> where \<^verbatim>\<open>x\<close> may be NaN.\<close>

definition num_add :: "int option \<Rightarrow> int \<Rightarrow> int option" where
  "num_add x k = (case x of None \<Rightarrow> None | Some t \<Rightarrow> Some (t + k))"

text \<open>
  \<^verbatim>\<open>a <= b\<close> and \<^verbatim>\<open>a >= b\<close> on dates compare the time values; every comparison with NaN
  is false.
\<close>

definition date_le :: "date \<Rightarrow> date \<Rightarrow> bool" where
  "date_le a b = (case a of None \<Rightarrow> False | Some x \<Rightarrow> (case b of None \<Rightarrow> False | Some y \<Rightarrow> x \<le> y))"

definition date_ge :: "date \<Rightarrow> date \<Rightarrow> bool" where
  "date_ge a b = (case a of None \<Rightarrow> False | Some x \<Rightarrow> (case b of None \<Rightarrow> False | Some y \<Rightarrow> x \<ge> y))"

text \<open>
  \<^verbatim>\<open>parseFloat(x.toFixed(2))\<close>: \<^verbatim>\<open>toFixed\<close> rounds the absolute value to the nearest
  hundredth, the larger one on a tie, and keeps the sign; from 1e21 on it prints the number
  itself.
\<close>

definition toFixed2 :: "number \<Rightarrow> number" where
  "toFixed2 x =
     (if 10 ^ 21 \<le> \<bar>x\<bar> then x
      else sgn x * (of_int \<lfloor>\<bar>x\<bar> * 100 + 1 / 2\<rfloor> / 100))"

section \<open>Subscriptions\<close>

text \<open>
  The fields of a subscription document that the analytics read. \<open>nextRenewalDate\<close> holds
  the time value that \<^verbatim>\<open>new Date(sub.nextRenewalDate)\<close> parses from the stored text, \<open>None\<close>
  when the text is unparseable. \<open>category\<close> is \<open>None\<close> when the field is missing.
\<close>

record subscription =
  cost :: number
  billingCycle :: string
  nextRenewalDate :: "int option"
  category :: "string option"
  isAwaitingCancellation :: bool

section \<open>The billing normalizer\<close>

definition calculateMonthlyRate :: "number \<Rightarrow> string \<Rightarrow> number" where
  "calculateMonthlyRate c cycle =
     (if cycle = ''Monthly'' then c
      else if cycle = ''Quarterly'' then c / 3
      else if cycle = ''Annually'' then c / 12
      else c)"

section \<open>The renewal walk\<close>

definition cycleInDays :: "string \<Rightarrow> int" where
  "cycleInDays cycle =
     (if cycle = ''Monthly'' then 30 else if cycle = ''Quarterly'' then 90 else 365)"

text \<open>
  The \<^verbatim>\<open>while\<close> loop of \<^verbatim>\<open>calculateRenewalsInNext12Months\<close>: the state is the running date
  and the count.
\<close>

function renewals12_loop :: "string \<Rightarrow> date \<Rightarrow> date \<Rightarrow> date \<Rightarrow> nat \<Rightarrow> nat" where
  "renewals12_loop cycle today next12Months currentDate count =
     (if date_le currentDate next12Months
      then renewals12_loop cycle today next12Months
             (new_Date (num_add (getTime currentDate) (cycleInDays cycle * 24 * 60 * 60 * 1000)))
             (if date_ge currentDate today then count + 1 else count)
      else count)"
  by pat_completeness auto
termination
proof (relation "measure (\<lambda>(cycle, today, next12Months, currentDate, count).
          case currentDate of None \<Rightarrow> 0
          | Some c \<Rightarrow> (case next12Months of None \<Rightarrow> 0 | Some e \<Rightarrow> nat (e - c + 1)))")
  show "wf (measure (\<lambda>(cycle, today, next12Months, currentDate, count).
          case currentDate of None \<Rightarrow> 0
          | Some c \<Rightarrow> (case next12Months of None \<Rightarrow> 0 | Some e \<Rightarrow> nat (e - c + 1))))"
    by simp
next
  fix cycle :: string and today next12Months currentDate :: date and count :: nat
  assume "date_le currentDate next12Months"
  then obtain c e where ce: "currentDate = Some c" "next12Months = Some e" "c \<le> e"
    by (auto simp: date_le_def split: option.splits)
  have "0 < cycleInDays cycle * 24 * 60 * 60 * 1000"
    by (simp add: cycleInDays_def)
  then show "((cycle, today, next12Months,
        new_Date (num_add (getTime currentDate) (cycleInDays cycle * 24 * 60 * 60 * 1000)),
        if date_ge currentDate today then count + 1 else count),
       cycle, today, next12Months, currentDate, count)
      \<in> measure (\<lambda>(cycle, today, next12Months, currentDate, count).
          case currentDate of None \<Rightarrow> 0
          | Some c \<Rightarrow> (case next12Months of None \<Rightarrow> 0 | Some e \<Rightarrow> nat (e - c + 1)))"
    using ce by (simp add: new_Date_def num_add_def getTime_def TimeClip_def)
qed

text \<open>
  \<^verbatim>\<open>calculateRenewalsInNext12Months\<close>. \<open>now\<close> is the reading of the clock, the time value
  of \<^verbatim>\<open>new Date()\<close>.
\<close>

definition calculateRenewalsInNext12Months :: "int \<Rightarrow> int option \<Rightarrow> string \<Rightarrow> nat" where
  "calculateRenewalsInNext12Months now nextRenewalDate' cycle =
     (let today = new_Date (Some now);
          renewalDate = new_Date nextRenewalDate';
          next12Months = new_Date (num_add (getTime today) (365 * 24 * 60 * 60 * 1000))
      in renewals12_loop cycle today next12Months (new_Date renewalDate) 0)"

text \<open>
  The \<^verbatim>\<open>while\<close> loop inside the \<^verbatim>\<open>reduce\<close> callback of \<^verbatim>\<open>monthlyTrendData\<close>, which counts
  into \<^verbatim>\<open>renewalsInMonth\<close>. It is the same walk over the window from \<^verbatim>\<open>monthStart\<close> to
  \<^verbatim>\<open>monthEnd\<close>.
\<close>

function renewalsInMonth_loop :: "string \<Rightarrow> date \<Rightarrow> date \<Rightarrow> date \<Rightarrow> nat \<Rightarrow> nat" where
  "renewalsInMonth_loop cycle monthStart monthEnd currentDate renewalsInMonth =
     (if date_le currentDate monthEnd
      then renewalsInMonth_loop cycle monthStart monthEnd
             (new_Date (num_add (getTime currentDate) (cycleInDays cycle * 24 * 60 * 60 * 1000)))
             (if date_ge currentDate monthStart \<and> date_le currentDate monthEnd
              then renewalsInMonth + 1 else renewalsInMonth)
      else renewalsInMonth)"
  by pat_completeness auto
termination
proof (relation "measure (\<lambda>(cycle, monthStart, monthEnd, currentDate, n).
          case currentDate of None \<Rightarrow> 0
          | Some c \<Rightarrow> (case monthEnd of None \<Rightarrow> 0 | Some e \<Rightarrow> nat (e - c + 1)))")
  show "wf (measure (\<lambda>(cycle, monthStart, monthEnd, currentDate, n).
          case currentDate of None \<Rightarrow> 0
          | Some c \<Rightarrow> (case monthEnd of None \<Rightarrow> 0 | Some e \<Rightarrow> nat (e - c + 1))))"
    by simp
next
  fix cycle :: string and monthStart monthEnd currentDate :: date and renewalsInMonth :: nat
  assume "date_le currentDate monthEnd"
  then obtain c e where ce: "currentDate = Some c" "monthEnd = Some e" "c \<le> e"
    by (auto simp: date_le_def split: option.splits)
  have "0 < cycleInDays cycle * 24 * 60 * 60 * 1000"
    by (simp add: cycleInDays_def)
  then show "((cycle, monthStart, monthEnd,
        new_Date (num_add (getTime currentDate) (cycleInDays cycle * 24 * 60 * 60 * 1000)),
        if date_ge currentDate monthStart \<and> date_le currentDate monthEnd
        then renewalsInMonth + 1 else renewalsInMonth),
       cycle, monthStart, monthEnd, currentDate, renewalsInMonth)
      \<in> measure (\<lambda>(cycle, monthStart, monthEnd, currentDate, n).
          case currentDate of None \<Rightarrow> 0
          | Some c \<Rightarrow> (case monthEnd of None \<Rightarrow> 0 | Some e \<Rightarrow> nat (e - c + 1)))"
    using ce by (simp add: new_Date_def num_add_def getTime_def TimeClip_def)
qed

text \<open>
  The walk of one subscription over one window: \<^verbatim>\<open>currentDate\<close> starts as a copy of
  \<^verbatim>\<open>renewalDate\<close> and the counter at 0.
\<close>

definition renewalsInWindow :: "string \<Rightarrow> date \<Rightarrow> date \<Rightarrow> date \<Rightarrow> nat" where
  "renewalsInWindow cycle renewalDate monthStart monthEnd =
     renewalsInMonth_loop cycle monthStart monthEnd (new_Date renewalDate) 0"

section \<open>The aggregator: cost and debt\<close>

text \<open>
  \<^verbatim>\<open>subscriptions.reduce(f, 0)\<close> is a left fold; \<^verbatim>\<open>filter\<close> keeps the order of the list. The clock
  is read once for an aggregate.
\<close>

definition totalMonthlyCost :: "subscription list \<Rightarrow> number" where
  "totalMonthlyCost subscriptions =
     foldl (\<lambda>total sub. total + calculateMonthlyRate (cost sub) (billingCycle sub)) 0 subscriptions"

definition totalDebt12Months :: "int \<Rightarrow> subscription list \<Rightarrow> number" where
  "totalDebt12Months now subscriptions =
     foldl (\<lambda>total sub.
              let renewals = calculateRenewalsInNext12Months now (nextRenewalDate sub) (billingCycle sub)
              in total + of_nat renewals * cost sub)
       0 (filter (\<lambda>sub. \<not> isAwaitingCancellation sub) subscriptions)"

definition cancellationDebt :: "int \<Rightarrow> subscription list \<Rightarrow> number" where
  "cancellationDebt now subscriptions =
     foldl (\<lambda>total sub.
              let renewals = calculateRenewalsInNext12Months now (nextRenewalDate sub) (billingCycle sub)
              in total + of_nat renewals * cost sub)
       0 (filter (\<lambda>sub. isAwaitingCancellation sub) subscriptions)"

section \<open>Calendar arithmetic of the host\<close>

text \<open>
  The calendar functions behind \<^verbatim>\<open>getFullYear\<close>, \<^verbatim>\<open>getMonth\<close>, \<^verbatim>\<open>setMonth\<close> and
  \<^verbatim>\<open>new Date(year, month, day)\<close>, as the language standard defines them on time values
  (proleptic Gregorian calendar, days of 86400000 ms). Local time is a fixed offset
  \<open>LocalTZA\<close> from UTC; no property below depends on its value except the worked examples,
  which are computed for UTC.
\<close>

definition msPerDay :: int where
  "msPerDay = 86400000"

definition LocalTZA :: int where
  "LocalTZA = 0"

definition LocalTime :: "int \<Rightarrow> int" where
  "LocalTime t = t + LocalTZA"

definition UTC :: "int \<Rightarrow> int" where
  "UTC t = t - LocalTZA"

definition Day :: "int \<Rightarrow> int" where
  "Day t = t div msPerDay"


definition DaysInYear :: "int \<Rightarrow> int" where
  "DaysInYear y =
     (if y mod 4 \<noteq> 0 then 365 else if y mod 100 \<noteq> 0 then 366
      else if y mod 400 \<noteq> 0 then 365 else 366)"

definition DayFromYear :: "int \<Rightarrow> int" where
  "DayFromYear y = 365 * (y - 1970) + (y - 1969) div 4 - (y - 1901) div 100 + (y - 1601) div 400"

text \<open>
  \<^verbatim>\<open>YearFromTime(t)\<close> is the largest year whose first day is not after \<open>t\<close>. It is computed
  from an estimate that is off by at most one (\<open>YearFromTime_largest\<close> below).
\<close>

definition YearFromTime :: "int \<Rightarrow> int" where
  "YearFromTime t =
     (let d = Day t; y = 1970 + (400 * d) div 146097
      in if DayFromYear (y + 1) \<le> d then y + 1 else if DayFromYear y \<le> d then y else y - 1)"

definition InLeapYear :: "int \<Rightarrow> int" where
  "InLeapYear t = (if DaysInYear (YearFromTime t) = 366 then 1 else 0)"

definition DayWithinYear :: "int \<Rightarrow> int" where
  "DayWithinYear t = Day t - DayFromYear (YearFromTime t)"

text \<open>The day of the year on which month \<open>m\<close> (0 to 11) starts; \<open>l\<close> is 1 in a leap year.\<close>

definition monthStartDay :: "int \<Rightarrow> int \<Rightarrow> int" where
  "monthStartDay m l =
     (if m = 0 then 0 else if m = 1 then 31 else if m = 2 then 59 + l
      else if m = 3 then 90 + l else if m = 4 then 120 + l else if m = 5 then 151 + l
      else if m = 6 then 181 + l else if m = 7 then 212 + l else if m = 8 then 243 + l
      else if m = 9 then 273 + l else if m = 10 then 304 + l else 334 + l)"

definition MonthFromTime :: "int \<Rightarrow> int" where
  "MonthFromTime t =
     (let d = DayWithinYear t; l = InLeapYear t
      in if d < 31 then 0 else if d < 59 + l then 1 else if d < 90 + l then 2
         else if d < 120 + l then 3 else if d < 151 + l then 4 else if d < 181 + l then 5
         else if d < 212 + l then 6 else if d < 243 + l then 7 else if d < 273 + l then 8
         else if d < 304 + l then 9 else if d < 334 + l then 10 else 11)"


text \<open>
  \<^verbatim>\<open>MakeDay(year, month, date)\<close>: months outside 0 to 11 carry into the year, and the day
  number is counted from the first of the month, so day 0 is the last day of the month
  before.
\<close>

definition MakeDay :: "int \<Rightarrow> int \<Rightarrow> int \<Rightarrow> int" where
  "MakeDay year month dt =
     (let ym = year + month div 12; mn = month mod 12
      in DayFromYear ym + monthStartDay mn (if DaysInYear ym = 366 then 1 else 0) + dt - 1)"

definition MakeDate :: "int \<Rightarrow> int \<Rightarrow> int" where
  "MakeDate day time = day * msPerDay + time"

text \<open>\<^verbatim>\<open>d.getFullYear()\<close> and \<^verbatim>\<open>d.getMonth()\<close>: NaN for an Invalid Date.\<close>

definition getFullYear :: "date \<Rightarrow> int option" where
  "getFullYear d = (case d of None \<Rightarrow> None | Some t \<Rightarrow> Some (YearFromTime (LocalTime t)))"

definition getMonth :: "date \<Rightarrow> int option" where
  "getMonth d = (case d of None \<Rightarrow> None | Some t \<Rightarrow> Some (MonthFromTime (LocalTime t)))"

text \<open>
  \<^verbatim>\<open>new Date(year, month, day)\<close>, local midnight of that day; a NaN argument gives an
  Invalid Date, and a year from 0 to 99 means 1900 plus that year.
\<close>

definition new_Date_ymd :: "int option \<Rightarrow> int option \<Rightarrow> int \<Rightarrow> date" where
  "new_Date_ymd year month dt =
     (case year of None \<Rightarrow> None
      | Some y \<Rightarrow>
          (case month of None \<Rightarrow> None
           | Some m \<Rightarrow>
               (let yr = (if 0 \<le> y \<and> y \<le> 99 then 1900 + y else y)
                in TimeClip (UTC (MakeDate (MakeDay yr m dt) 0)))))"


text \<open>\<^verbatim>\<open>a === b\<close> on numbers: NaN equals nothing.\<close>

definition num_eq :: "int option \<Rightarrow> int option \<Rightarrow> bool" where
  "num_eq a b = (case a of None \<Rightarrow> False | Some x \<Rightarrow> (case b of None \<Rightarrow> False | Some y \<Rightarrow> x = y))"

text \<open>
  The text that \<^verbatim>\<open>toLocaleDateString('en-US', {year: 'numeric', month: 'short'})\<close> and
  \<^verbatim>\<open>toLocaleString('en-US', {month: 'short', year: '2-digit'})\<close> print is produced by the
  host's locale data. A label is represented by what it shows: the index of the month and
  the local year, or the last two digits of the year.
\<close>

datatype monthKey = ShortMonth_Year int int | ShortMonth_Year2 int int | Invalid_Date

definition toLocaleDateString_month_year :: "date \<Rightarrow> monthKey" where
  "toLocaleDateString_month_year d =
     (case d of None \<Rightarrow> Invalid_Date
      | Some t \<Rightarrow> ShortMonth_Year (MonthFromTime (LocalTime t)) (YearFromTime (LocalTime t)))"


section \<open>The aggregator: monthly trend\<close>

record trendEntry =
  month :: monthKey
  cost :: number

text \<open>
  The callback of the \<^verbatim>\<open>reduce\<close> in \<^verbatim>\<open>monthlyTrendData\<close> adds \<^verbatim>\<open>monthSubCost\<close>, what one
  subscription contributes to the month that starts at \<^verbatim>\<open>monthDate\<close>, to the total.
\<close>

definition monthSubCost :: "date \<Rightarrow> subscription \<Rightarrow> number" where
  "monthSubCost monthDate sub =
     (let renewalDate = new_Date (nextRenewalDate sub);
          currentDate = new_Date renewalDate;
          monthStart = new_Date_ymd (getFullYear monthDate) (getMonth monthDate) 1;
          monthEnd = new_Date_ymd (getFullYear monthDate) (num_add (getMonth monthDate) 1) 0;
          renewalsInMonth = renewalsInMonth_loop (billingCycle sub) monthStart monthEnd currentDate 0
      in if renewalsInMonth > 0 then subscription.cost sub * of_nat renewalsInMonth
         else if billingCycle sub = ''Monthly'' then subscription.cost sub
         else if billingCycle sub = ''Quarterly'' \<and>
                 date_le monthDate
                   (new_Date_ymd (getFullYear renewalDate) (num_add (getMonth renewalDate) 3) 0)
              then subscription.cost sub / 3
         else if billingCycle sub = ''Annually'' \<and>
                 num_eq (getFullYear monthDate) (getFullYear renewalDate)
              then subscription.cost sub / 12
         else 0)"

definition monthlyTrendData :: "int \<Rightarrow> subscription list \<Rightarrow> trendEntry list" where
  "monthlyTrendData now subscriptions =
     map (\<lambda>i. let today = new_Date (Some now);
                   monthDate = new_Date_ymd (getFullYear today) (num_add (getMonth today) (int i)) 1;
                   monthKey = toLocaleDateString_month_year monthDate;
                   monthCost = foldl (\<lambda>total sub. total + monthSubCost monthDate sub) 0 subscriptions
               in \<lparr>month = monthKey, cost = toFixed2 monthCost\<rparr>)
       [0 ..< 12]"

section \<open>The aggregator: category breakdown and upcoming renewals\<close>

text \<open>
  \<^verbatim>\<open>categoryMap\<close> is an object used as a dictionary from category names to numbers. It is
  modelled by its own properties in the order of their creation; the properties that every
  object inherits are outside the model, so a category is assumed not to bear the name of
  one of them. Assigning to a key that exists keeps its place, a new key goes last.
\<close>

type_synonym categoryMap = "(string \<times> number) list"

fun obj_get :: "categoryMap \<Rightarrow> string \<Rightarrow> number option" where
  "obj_get [] k = None"
| "obj_get ((k', v) # m) k = (if k' = k then Some v else obj_get m k)"

fun obj_set :: "categoryMap \<Rightarrow> string \<Rightarrow> number \<Rightarrow> categoryMap" where
  "obj_set [] k v = [(k, v)]"
| "obj_set ((k', v') # m) k v = (if k' = k then (k', v) # m else (k', v') # obj_set m k v)"

text \<open>\<^verbatim>\<open>!categoryMap[category]\<close>: a missing entry and the number 0 are falsy.\<close>

definition falsy :: "number option \<Rightarrow> bool" where
  "falsy x = (case x of None \<Rightarrow> True | Some v \<Rightarrow> v = 0)"

text \<open>The value read in \<^verbatim>\<open>categoryMap[category] += monthlyCost\<close>, the entry being set before.\<close>

definition num_of :: "number option \<Rightarrow> number" where
  "num_of x = (case x of None \<Rightarrow> 0 | Some v \<Rightarrow> v)"

text \<open>\<^verbatim>\<open>sub.category || 'Uncategorized'\<close>: a missing and an empty category are falsy.\<close>

definition category_or_default :: "subscription \<Rightarrow> string" where
  "category_or_default sub =
     (case category sub of None \<Rightarrow> ''Uncategorized''
      | Some c \<Rightarrow> if c = [] then ''Uncategorized'' else c)"

text \<open>The body of the \<^verbatim>\<open>forEach\<close> callback of \<^verbatim>\<open>categoryBreakdown\<close>.\<close>

definition categoryStep :: "categoryMap \<Rightarrow> subscription \<Rightarrow> categoryMap" where
  "categoryStep categoryMap sub =
     (let category = category_or_default sub;
          monthlyCost = calculateMonthlyRate (subscription.cost sub) (billingCycle sub);
          categoryMap1 = (if falsy (obj_get categoryMap category)
                          then obj_set categoryMap category 0 else categoryMap)
      in obj_set categoryMap1 category (num_of (obj_get categoryMap1 category) + monthlyCost))"

text \<open>
  \<^verbatim>\<open>Object.entries\<close> lists the keys that are array indices first, in ascending numeric
  order, and then the other keys in the order of their creation. An array index is the
  decimal numeral, without a leading zero, of a number below \<open>2\<^sup>3\<^sup>2 - 1\<close>.
\<close>

definition digit_chars :: "string \<Rightarrow> bool" where
  "digit_chars k = list_all (\<lambda>c. c \<in> set ''0123456789'') k"

definition int_of_digits :: "string \<Rightarrow> int" where
  "int_of_digits k = foldl (\<lambda>n c. 10 * n + (of_char c - 48)) 0 k"

definition isArrayIndex :: "string \<Rightarrow> bool" where
  "isArrayIndex k =
     (k \<noteq> [] \<and> digit_chars k \<and> (hd k \<noteq> CHR ''0'' \<or> length k = 1) \<and>
      int_of_digits k < 2 ^ 32 - 1)"

definition Object_entries :: "categoryMap \<Rightarrow> (string \<times> number) list" where
  "Object_entries m =
     sort_key (\<lambda>(k, v). int_of_digits k) (filter (\<lambda>(k, v). isArrayIndex k) m) @
     filter (\<lambda>(k, v). \<not> isArrayIndex k) m"

record categoryEntry =
  name :: string
  "value" :: number

text \<open>
  \<^verbatim>\<open>categoryBreakdown\<close>. \<^verbatim>\<open>sort\<close> with the comparator \<^verbatim>\<open>b.value - a.value\<close> is a stable sort
  into descending order of \<^verbatim>\<open>value\<close>.
\<close>

definition categoryBreakdown :: "subscription list \<Rightarrow> categoryEntry list" where
  "categoryBreakdown subscriptions =
     (let categoryMap = foldl categoryStep [] subscriptions
      in sort_key (\<lambda>e. - value e)
           (map (\<lambda>(name', value'). \<lparr>name = name', value = toFixed2 value'\<rparr>)
              (Object_entries categoryMap)))"

text \<open>
  \<^verbatim>\<open>upcomingRenewals\<close>. The comparator of its \<^verbatim>\<open>sort\<close> subtracts the renewal dates, which
  are valid after the filter; the sort is stable and ascending in the time value.
\<close>

definition renewalTime :: "subscription \<Rightarrow> int" where
  "renewalTime sub = (case new_Date (nextRenewalDate sub) of None \<Rightarrow> 0 | Some t \<Rightarrow> t)"

definition upcomingRenewals :: "int \<Rightarrow> subscription list \<Rightarrow> subscription list" where
  "upcomingRenewals now subscriptions =
     (let today = new_Date (Some now);
          thirtyDaysFromNow = new_Date (num_add (getTime today) (30 * 24 * 60 * 60 * 1000))
      in sort_key renewalTime
           (filter (\<lambda>sub. let renewalDate = new_Date (nextRenewalDate sub)
                           in date_ge renewalDate today \<and> date_le renewalDate thirtyDaysFromNow \<and>
                              \<not> isAwaitingCancellation sub)
              subscriptions))"

section \<open>The forecaster\<close>

text \<open>
  An entry of the forecast series. \<open>cost\<close> is only present on the entries that the short
  branch copies from the trend; \<open>None\<close> in the other two fields is \<^verbatim>\<open>null\<close>.
\<close>

record forecastEntry =
  month :: monthKey
  cost :: "number option"
  actualSpending :: "number option"
  forecastSpending :: "number option"


section \<open>The occurrence walk, as the specification words it\<close>

text \<open>
  The specification describes the recurrence expander by the dates it visits: starting at
  the anchor date it steps forward by a fixed period for as long as the running date is not
  after the end of the window, so it visits the dates \<open>anchor + k * period\<close> up to the end of
  the window; the occurrences are the visited dates that lie inside the window. Dates are
  time values in milliseconds here, and the period is positive.
\<close>

definition visitedDates :: "int \<Rightarrow> int \<Rightarrow> int \<Rightarrow> int list" where
  "visitedDates anchorDate period windowEnd =
     map (\<lambda>k. anchorDate + int k * period)
       [0 ..< nat ((windowEnd - anchorDate) div period + 1)]"

definition occurrencesInWindow :: "int \<Rightarrow> int \<Rightarrow> int \<Rightarrow> int \<Rightarrow> int list" where
  "occurrencesInWindow anchorDate period windowStart windowEnd =
     filter (\<lambda>d. windowStart \<le> d \<and> d \<le> windowEnd) (visitedDates anchorDate period windowEnd)"

text \<open>The length of a day in milliseconds, times the days of the period.\<close>

definition daysMs :: "int \<Rightarrow> int" where
  "daysMs n = n * 86400000"

section \<open>The forecast, as the specification words it\<close>



section \<open>The months of the trend, named\<close>


definition monthWindowStart :: "date \<Rightarrow> date" where
  "monthWindowStart monthDate = new_Date_ymd (getFullYear monthDate) (getMonth monthDate) 1"

definition monthWindowEnd :: "date \<Rightarrow> date" where
  "monthWindowEnd monthDate = new_Date_ymd (getFullYear monthDate) (num_add (getMonth monthDate) 1) 0"

definition quarterCutoff :: "date \<Rightarrow> date" where
  "quarterCutoff renewalDate =
     new_Date_ymd (getFullYear renewalDate) (num_add (getMonth renewalDate) 3) 0"

section \<open>Properties of the billing normalizer\<close>

text \<open>
  C8. The billing normalizer returns the cost for a Monthly cycle, a third of it for a
  Quarterly cycle and a twelfth of it for an Annually cycle; any other cycle value is
  treated as Monthly and the cost is returned, there being no error result. In particular
  the rate of 120 billed Annually is 10, of 90 billed Quarterly is 30 and of 50 billed
  Monthly is 50.
\<close>

theorem calculateMonthlyRate_cases:
  "calculateMonthlyRate c ''Monthly'' = c \<and>
   calculateMonthlyRate c ''Quarterly'' = c / 3 \<and>
   calculateMonthlyRate c ''Annually'' = c / 12 \<and>
   (cycle \<notin> {''Monthly'', ''Quarterly'', ''Annually''} \<longrightarrow> calculateMonthlyRate c cycle = c) \<and>
   calculateMonthlyRate 120 ''Annually'' = 10 \<and>
   calculateMonthlyRate 90 ''Quarterly'' = 30 \<and>
   calculateMonthlyRate 50 ''Monthly'' = 50"
  by (simp add: calculateMonthlyRate_def)

theorem calculateMonthlyRate_cases_witness:
  "''Weekly'' \<notin> {''Monthly'', ''Quarterly'', ''Annually''} \<and> calculateMonthlyRate 7 ''Weekly'' = 7"
  using calculateMonthlyRate_cases [of 7 "''Weekly''"] by simp

section \<open>Properties of the renewal walk\<close>

lemma foldl_plus_sum_list:
  fixes f :: "'a \<Rightarrow> rat"
  shows "foldl (\<lambda>total x. total + f x) a xs = a + sum_list (map f xs)"
  by (induction xs arbitrary: a) (simp_all add: add.assoc)

lemma step_pos: "0 < cycleInDays cycle * 24 * 60 * 60 * 1000"
  by (simp add: cycleInDays_def)

lemma date_le_None: "date_le None b = False" "date_le a None = False"
  by (simp_all add: date_le_def split: option.splits)

lemma date_ge_None: "date_ge None b = False" "date_ge a None = False"
  by (simp_all add: date_ge_def split: option.splits)

lemma date_le_Some: "date_le (Some x) (Some y) = (x \<le> y)"
  by (simp add: date_le_def)

lemma date_ge_Some: "date_ge (Some x) (Some y) = (y \<le> x)"
  by (simp add: date_ge_def)

lemmas date_cmp = date_le_None date_ge_None date_le_Some date_ge_Some

declare renewals12_loop.simps [simp del] renewalsInMonth_loop.simps [simp del]

text \<open>The two loops of the source are the same walk.\<close>

lemma renewals12_loop_eq:
  "renewals12_loop cycle today end' cur n = renewalsInMonth_loop cycle today end' cur n"
proof (induction cycle today end' cur n rule: renewals12_loop.induct)
  case (1 cycle today next12Months currentDate count)
  show ?case
  proof (cases "date_le currentDate next12Months")
    case True
    then show ?thesis
      using "1.IH" [OF True]
      by (subst renewals12_loop.simps, subst renewalsInMonth_loop.simps) simp
  next
    case False
    then show ?thesis
      by (subst renewals12_loop.simps, subst renewalsInMonth_loop.simps) simp
  qed
qed

text \<open>The counter is an accumulator: the walk adds to it what it counts.\<close>

lemma loop_acc:
  fixes n :: nat
  shows "renewalsInMonth_loop cycle ws we cur m = m + renewalsInMonth_loop cycle ws we cur 0"
proof (induction cycle ws we cur n arbitrary: m rule: renewalsInMonth_loop.induct)
  case (1 cycle ws we cur n)
  show ?case
  proof (cases "date_le cur we")
    case True
    let ?next = "new_Date (num_add (getTime cur) (cycleInDays cycle * 24 * 60 * 60 * 1000))"
    let ?d = "if date_ge cur ws \<and> date_le cur we then 1 else (0::nat)"
    have a: "renewalsInMonth_loop cycle ws we cur m = renewalsInMonth_loop cycle ws we ?next (m + ?d)"
      using True by (subst renewalsInMonth_loop.simps) simp
    have b: "renewalsInMonth_loop cycle ws we cur 0 = renewalsInMonth_loop cycle ws we ?next ?d"
      using True by (subst renewalsInMonth_loop.simps) simp
    have c: "renewalsInMonth_loop cycle ws we ?next (m + ?d) =
             (m + ?d) + renewalsInMonth_loop cycle ws we ?next 0"
      using "1.IH" [OF True, of "m + ?d"] by simp
    have d: "renewalsInMonth_loop cycle ws we ?next ?d = ?d + renewalsInMonth_loop cycle ws we ?next 0"
      using "1.IH" [OF True, of "?d"] by simp
    show ?thesis using a b c d by simp
  next
    case False
    then show ?thesis by (subst (1 2) renewalsInMonth_loop.simps) simp
  qed
qed

lemma loop_ge_acc: "m \<le> renewalsInMonth_loop cycle ws we cur m"
  using loop_acc [of cycle ws we cur m] by simp

lemma loop_stops: "\<not> date_le cur we \<Longrightarrow> renewalsInMonth_loop cycle ws we cur m = m"
  by (subst renewalsInMonth_loop.simps) simp

lemma loop_steps:
  "date_le cur we \<Longrightarrow>
   renewalsInMonth_loop cycle ws we cur m =
   renewalsInMonth_loop cycle ws we
     (new_Date (num_add (getTime cur) (cycleInDays cycle * 24 * 60 * 60 * 1000)))
     (m + (if date_ge cur ws then 1 else 0))"
  by (subst renewalsInMonth_loop.simps) simp

text \<open>A window whose start is an Invalid Date holds no occurrence.\<close>

lemma loop_no_start:
  fixes n :: nat
  shows "renewalsInMonth_loop cycle None we cur m = m"
proof (induction cycle "None :: date" we cur n arbitrary: m rule: renewalsInMonth_loop.induct)
  case (1 cycle we cur n)
  show ?case
  proof (cases "date_le cur we")
    case True
    then show ?thesis
      using "1.hyps" [OF True, of m] by (simp add: loop_steps date_cmp)
  next
    case False
    then show ?thesis by (rule loop_stops)
  qed
qed

lemma loop_mono:
  fixes n :: nat
  assumes "date_le ws' ws" "date_le we we'"
  shows "m \<le> m' \<Longrightarrow>
         renewalsInMonth_loop cycle ws we cur m \<le> renewalsInMonth_loop cycle ws' we' cur m'"
  using assms
proof (induction cycle ws' we' cur n arbitrary: m m' rule: renewalsInMonth_loop.induct)
  case (1 cycle ws' we' cur n)
  obtain s s' e e' where v: "ws = Some s" "ws' = Some s'" "we = Some e" "we' = Some e'"
      "s' \<le> s" "e \<le> e'"
    using "1.prems" by (auto simp: date_le_def split: option.splits)
  let ?next = "new_Date (num_add (getTime cur) (cycleInDays cycle * 24 * 60 * 60 * 1000))"
  show ?case
  proof (cases "date_le cur we'")
    case wide: True
    let ?d' = "if date_ge cur ws' then 1 else (0::nat)"
    have a: "renewalsInMonth_loop cycle ws' we' cur m' =
             renewalsInMonth_loop cycle ws' we' ?next (m' + ?d')"
      using wide by (rule loop_steps)
    show ?thesis
    proof (cases "date_le cur we")
      case True
      let ?d = "if date_ge cur ws then 1 else (0::nat)"
      have b: "renewalsInMonth_loop cycle ws we cur m = renewalsInMonth_loop cycle ws we ?next (m + ?d)"
        using True by (rule loop_steps)
      have "?d \<le> ?d'"
        using v by (cases cur) (auto simp: date_cmp)
      then have "m + ?d \<le> m' + ?d'"
        using "1.prems"(1) by linarith
      from "1.IH" [OF wide this "1.prems"(2,3)] a b show ?thesis by simp
    next
      case False
      then have "renewalsInMonth_loop cycle ws we cur m = m"
        by (rule loop_stops)
      moreover have "m' + ?d' \<le> renewalsInMonth_loop cycle ws' we' ?next (m' + ?d')"
        by (rule loop_ge_acc)
      ultimately show ?thesis using a "1.prems"(1) by linarith
    qed
  next
    case False
    then have n: "\<not> date_le cur we"
      using v by (cases cur) (auto simp: date_cmp)
    have "renewalsInMonth_loop cycle ws we cur m = m"
      using n by (rule loop_stops)
    moreover have "renewalsInMonth_loop cycle ws' we' cur m' = m'"
      using False by (rule loop_stops)
    ultimately show ?thesis using "1.prems"(1) by simp
  qed
qed

text \<open>The visited dates, one step at a time.\<close>

lemma visitedDates_rec:
  assumes "0 < p"
  shows "visitedDates c p we = (if c \<le> we then c # visitedDates (c + p) p we else [])"
proof (cases "c \<le> we")
  case True
  define q where "q = (we - c) div p"
  have q0: "0 \<le> q"
    unfolding q_def using True assms by (simp add: pos_imp_zdiv_nonneg_iff)
  have "(we - (c + p) + 1 * p) div p = 1 + (we - (c + p)) div p"
    using assms by (subst div_mult_self1) simp_all
  moreover have "we - (c + p) + 1 * p = we - c" by simp
  ultimately have q1: "(we - (c + p)) div p + 1 = q"
    unfolding q_def by simp
  have n: "nat (q + 1) = Suc (nat q)"
    using q0 by simp
  have "[0 ..< Suc (nat q)] = 0 # [Suc 0 ..< Suc (nat q)]"
    by (rule upt_conv_Cons) simp
  also have "[Suc 0 ..< Suc (nat q)] = map Suc [0 ..< nat q]"
    by (rule map_Suc_upt [symmetric])
  finally have u: "[0 ..< Suc (nat q)] = 0 # map Suc [0 ..< nat q]" .
  have "visitedDates c p we = map (\<lambda>k. c + int k * p) (0 # map Suc [0 ..< nat q])"
    unfolding visitedDates_def q_def [symmetric] n u ..
  also have "\<dots> = c # map (\<lambda>k. c + int (Suc k) * p) [0 ..< nat q]"
    by (simp only: list.map map_map comp_def) simp
  also have "map (\<lambda>k. c + int (Suc k) * p) [0 ..< nat q] = visitedDates (c + p) p we"
    unfolding visitedDates_def q1 by (simp add: algebra_simps)
  finally show ?thesis using True by simp
next
  case False
  then have "(we - c) div p < 0"
    using assms by (simp add: div_neg_pos_less0)
  then show ?thesis
    using False by (simp add: visitedDates_def)
qed

lemma occurrencesInWindow_rec:
  assumes "0 < p"
  shows "occurrencesInWindow c p ws we =
    (if c \<le> we then (if ws \<le> c then [c] else []) @ occurrencesInWindow (c + p) p ws we else [])"
  unfolding occurrencesInWindow_def
  by (subst visitedDates_rec [OF assms]) simp

text \<open>The walk of the source counts the occurrences of the specification.\<close>

lemma loop_occurrences:
  fixes n :: nat
  assumes "cur = Some c" "- 8640000000000000 \<le> c" "we \<le> 8640000000000000"
  shows "renewalsInMonth_loop cycle (Some ws) (Some we) cur m =
         m + length (occurrencesInWindow c (cycleInDays cycle * 24 * 60 * 60 * 1000) ws we)"
  using assms
proof (induction cycle "Some ws :: date" "Some we :: date" cur n arbitrary: m c
       rule: renewalsInMonth_loop.induct)
  case (1 cycle cur n)
  let ?p = "cycleInDays cycle * 24 * 60 * 60 * 1000"
  have p: "0 < ?p" by (rule step_pos)
  let ?next = "new_Date (num_add (getTime cur) ?p)"
  show ?case
  proof (cases "c \<le> we")
    case True
    let ?d = "if ws \<le> c then 1 else (0::nat)"
    have le: "date_le cur (Some we)" using True "1.prems"(1) by (simp add: date_cmp)
    have a: "renewalsInMonth_loop cycle (Some ws) (Some we) cur m =
             renewalsInMonth_loop cycle (Some ws) (Some we) ?next (m + ?d)"
      using loop_steps [OF le, of cycle "Some ws" m] "1.prems"(1) by (simp add: date_cmp)
    have o: "length (occurrencesInWindow c ?p ws we) =
             ?d + length (occurrencesInWindow (c + ?p) ?p ws we)"
      using True by (subst occurrencesInWindow_rec [OF p]) simp
    show ?thesis
    proof (cases "c + ?p \<le> we")
      case t: True
      have "\<bar>c + ?p\<bar> \<le> 8640000000000000"
        using t "1.prems"(2,3) p by linarith
      then have nx: "?next = Some (c + ?p)"
        using "1.prems"(1) by (simp add: new_Date_def num_add_def getTime_def TimeClip_def)
      have "- 8640000000000000 \<le> c + ?p" using "1.prems"(2) p by linarith
      from "1.hyps" [OF le nx this "1.prems"(3), of "m + ?d"] a o show ?thesis by simp
    next
      case False
      then have "\<not> date_le ?next (Some we)"
        using "1.prems"(1)
        by (simp add: new_Date_def num_add_def getTime_def TimeClip_def date_cmp)
      then have "renewalsInMonth_loop cycle (Some ws) (Some we) ?next (m + ?d) = m + ?d"
        by (rule loop_stops)
      moreover have "occurrencesInWindow (c + ?p) ?p ws we = []"
        using False by (subst occurrencesInWindow_rec [OF p]) simp
      ultimately show ?thesis using a o by simp
    qed
  next
    case False
    then have "renewalsInMonth_loop cycle (Some ws) (Some we) cur m = m"
      using "1.prems"(1) by (simp add: loop_stops date_cmp)
    moreover have "occurrencesInWindow c ?p ws we = []"
      using False by (subst occurrencesInWindow_rec [OF p]) simp
    ultimately show ?thesis by simp
  qed
qed

lemma new_Date_idem: "new_Date (new_Date d) = new_Date d"
  by (cases d) (simp_all add: new_Date_def TimeClip_def)

lemma new_Date_in_range: "\<bar>t\<bar> \<le> 8640000000000000 \<Longrightarrow> new_Date (Some t) = Some t"
  by (simp add: new_Date_def TimeClip_def)

text \<open>
  The walk of \<^verbatim>\<open>calculateRenewalsInNext12Months\<close> is the walk over the window from the
  reference date to 365 days later.
\<close>

lemma calculateRenewals_window:
  "calculateRenewalsInNext12Months now d cycle =
   renewalsInWindow cycle (new_Date d) (TimeClip now) (TimeClip (now + daysMs 365))"
proof (cases "\<bar>now\<bar> \<le> 8640000000000000")
  case True
  then show ?thesis
    by (simp add: calculateRenewalsInNext12Months_def renewalsInWindow_def renewals12_loop_eq
        new_Date_idem new_Date_def num_add_def getTime_def TimeClip_def daysMs_def)
next
  case False
  then have "calculateRenewalsInNext12Months now d cycle = 0"
    by (simp add: calculateRenewalsInNext12Months_def renewals12_loop_eq new_Date_def
        num_add_def getTime_def TimeClip_def loop_stops date_cmp)
  moreover have "renewalsInWindow cycle (new_Date d) (TimeClip now) (TimeClip (now + daysMs 365)) = 0"
    using False loop_no_start [of cycle] by (simp add: renewalsInWindow_def TimeClip_def)
  ultimately show ?thesis by simp
qed

lemma renewalsInWindow_occurrences:
  assumes "\<bar>a\<bar> \<le> 8640000000000000" "\<bar>we\<bar> \<le> 8640000000000000"
  shows "renewalsInWindow cycle (Some a) (Some ws) (Some we) =
         length (occurrencesInWindow a (daysMs (cycleInDays cycle)) ws we)"
proof -
  have "new_Date (Some a) = Some a"
    using assms(1) by (rule new_Date_in_range)
  moreover have "- 8640000000000000 \<le> a" "we \<le> 8640000000000000"
    using assms by linarith+
  moreover have "daysMs (cycleInDays cycle) = cycleInDays cycle * 24 * 60 * 60 * 1000"
    by (simp add: daysMs_def)
  ultimately show ?thesis
    using loop_occurrences [of "Some a" a we cycle ws 0]
    by (simp add: renewalsInWindow_def)
qed

text \<open>
  C4. The occurrence count of a valid anchor date over a window with a valid end is the
  number of the dates \<open>anchor + k * period\<close>, visited from the anchor for as long as they are
  not after the end of the window, that lie in the window; the period is the fixed number
  of days of the cycle, 30 for Monthly, 90 for Quarterly and 365 for Annually. An anchor
  after the end of the window gives the count zero. The count of
  \<^verbatim>\<open>calculateRenewalsInNext12Months\<close> is the one over the window from the reference date to
  365 days later.
\<close>

theorem renewal_walk_counts_occurrences:
  assumes "\<bar>anchorDate\<bar> \<le> 8640000000000000" "\<bar>windowEnd\<bar> \<le> 8640000000000000"
  shows "renewalsInWindow cycle (Some anchorDate) (Some windowStart) (Some windowEnd) =
           length (occurrencesInWindow anchorDate (daysMs (cycleInDays cycle)) windowStart windowEnd) \<and>
         cycleInDays ''Monthly'' = 30 \<and> cycleInDays ''Quarterly'' = 90 \<and>
         cycleInDays ''Annually'' = 365 \<and>
         (windowEnd < anchorDate \<longrightarrow>
            renewalsInWindow cycle (Some anchorDate) (Some windowStart) (Some windowEnd) = 0) \<and>
         (\<bar>now\<bar> \<le> 8640000000000000 \<and> \<bar>now + daysMs 365\<bar> \<le> 8640000000000000 \<longrightarrow>
            calculateRenewalsInNext12Months now (Some anchorDate) cycle =
              length (occurrencesInWindow anchorDate (daysMs (cycleInDays cycle)) now (now + daysMs 365)))"
proof -
  have p: "0 < daysMs (cycleInDays cycle)"
    by (simp add: daysMs_def cycleInDays_def)
  have a: "renewalsInWindow cycle (Some anchorDate) (Some windowStart) (Some windowEnd) =
           length (occurrencesInWindow anchorDate (daysMs (cycleInDays cycle)) windowStart windowEnd)"
    using assms by (rule renewalsInWindow_occurrences)
  have b: "windowEnd < anchorDate \<Longrightarrow>
           occurrencesInWindow anchorDate (daysMs (cycleInDays cycle)) windowStart windowEnd = []"
    by (subst occurrencesInWindow_rec [OF p]) simp
  have c: "calculateRenewalsInNext12Months now (Some anchorDate) cycle =
           length (occurrencesInWindow anchorDate (daysMs (cycleInDays cycle)) now (now + daysMs 365))"
    if "\<bar>now\<bar> \<le> 8640000000000000" "\<bar>now + daysMs 365\<bar> \<le> 8640000000000000"
  proof -
    have "calculateRenewalsInNext12Months now (Some anchorDate) cycle =
          renewalsInWindow cycle (Some anchorDate) (Some now) (Some (now + daysMs 365))"
      using that assms(1) by (simp add: calculateRenewals_window new_Date_in_range TimeClip_def)
    then show ?thesis
      using renewalsInWindow_occurrences [OF assms(1) that(2), of cycle now] by simp
  qed
  show ?thesis
    using a b c by (simp add: cycleInDays_def)
qed

theorem renewal_walk_counts_occurrences_witness:
  "\<bar>10 :: int\<bar> \<le> 8640000000000000 \<and> \<bar>5 :: int\<bar> \<le> 8640000000000000 \<and> (5 :: int) < 10 \<and>
   \<bar>0 :: int\<bar> \<le> 8640000000000000 \<and> \<bar>0 + daysMs 365\<bar> \<le> 8640000000000000 \<and>
   renewalsInWindow ''Monthly'' (Some 10) (Some 0) (Some 5) = 0 \<and>
   calculateRenewalsInNext12Months 0 (Some 10) ''Monthly'' =
     length (occurrencesInWindow 10 (daysMs (cycleInDays ''Monthly'')) 0 (0 + daysMs 365))"
proof -
  have a: "\<bar>10 :: int\<bar> \<le> 8640000000000000" and b: "\<bar>5 :: int\<bar> \<le> 8640000000000000"
    and c: "(5 :: int) < 10"
    and d: "\<bar>0 :: int\<bar> \<le> 8640000000000000 \<and> \<bar>0 + daysMs 365\<bar> \<le> 8640000000000000"
    by (simp_all add: daysMs_def)
  note t = renewal_walk_counts_occurrences [OF a b, of "''Monthly''" 0 0]
  have "renewalsInWindow ''Monthly'' (Some 10) (Some 0) (Some 5) = 0"
    using t c by blast
  moreover have "calculateRenewalsInNext12Months 0 (Some 10) ''Monthly'' =
     length (occurrencesInWindow 10 (daysMs (cycleInDays ''Monthly'')) 0 (0 + daysMs 365))"
    using t d by blast
  ultimately show ?thesis using a b c d by blast
qed

text \<open>
  A worked walk: a Monthly subscription anchored on 15 January 2025 has 12 occurrences in
  the 365 days from 1 January 2025, and an Annually one has 1.
\<close>

lemma renewal_walk_example:
  "calculateRenewalsInNext12Months 1735689600000 (Some 1736899200000) ''Monthly'' = 12 \<and>
   calculateRenewalsInNext12Months 1735689600000 (Some 1736899200000) ''Annually'' = 1 \<and>
   length (occurrencesInWindow 1736899200000 (daysMs 30) 1735689600000 (1735689600000 + daysMs 365)) = 12"
  by code_simp

text \<open>
  C7. The occurrence count is monotonic in the window: a window that starts no later and
  ends no earlier holds at least as many occurrences, for every anchor date and cycle.
\<close>

theorem renewalsInWindow_mono:
  assumes "date_le windowStart' windowStart" "date_le windowEnd windowEnd'"
  shows "renewalsInWindow cycle anchorDate windowStart windowEnd \<le>
         renewalsInWindow cycle anchorDate windowStart' windowEnd'"
  unfolding renewalsInWindow_def
  using loop_mono [OF assms, of 0 0 cycle "new_Date anchorDate"] by simp

theorem renewalsInWindow_mono_witness:
  "date_le (Some (- 1)) (Some 0) \<and> date_le (Some 0) (Some 2592000000) \<and>
   renewalsInWindow ''Monthly'' (Some 0) (Some 0) (Some 0) \<le>
   renewalsInWindow ''Monthly'' (Some 0) (Some (- 1)) (Some 2592000000)"
  using renewalsInWindow_mono [of "Some (- 1)" "Some 0" "Some 0" "Some 2592000000" "''Monthly''" "Some 0"]
  by (simp add: date_cmp)

section \<open>Properties of the cost and debt aggregates\<close>

lemma totalMonthlyCost_sum:
  "totalMonthlyCost subscriptions =
   (\<Sum>s\<leftarrow>subscriptions. calculateMonthlyRate (subscription.cost s) (billingCycle s))"
  by (simp add: totalMonthlyCost_def foldl_plus_sum_list)

text \<open>
  C3. The 12-month debt is the sum, over the subscriptions that are not awaiting
  cancellation, of the number of occurrences of the subscription's renewal walk in the
  window from the reference date to 365 days later, times the raw cost of the subscription;
  the cancellation debt is the same sum over the subscriptions that are awaiting
  cancellation.
\<close>

theorem debt_is_occurrences_times_raw_cost:
  "totalDebt12Months now subscriptions =
     (\<Sum>s\<leftarrow>filter (\<lambda>s. \<not> isAwaitingCancellation s) subscriptions.
        of_nat (renewalsInWindow (billingCycle s) (new_Date (nextRenewalDate s))
                  (TimeClip now) (TimeClip (now + daysMs 365))) * subscription.cost s) \<and>
   cancellationDebt now subscriptions =
     (\<Sum>s\<leftarrow>filter (\<lambda>s. isAwaitingCancellation s) subscriptions.
        of_nat (renewalsInWindow (billingCycle s) (new_Date (nextRenewalDate s))
                  (TimeClip now) (TimeClip (now + daysMs 365))) * subscription.cost s)"
  by (simp add: totalDebt12Months_def cancellationDebt_def foldl_plus_sum_list
      calculateRenewals_window)

text \<open>
  The scenario of the specification: one subscription of cost 12, billed Annually, renewing
  on 15 January 2025, seen on 1 January 2025.
\<close>

lemma debt_scenario:
  "totalDebt12Months 1735689600000
     [\<lparr>subscription.cost = 12, billingCycle = ''Annually'', nextRenewalDate = Some 1736899200000,
       category = None, isAwaitingCancellation = False\<rparr>] = 12 \<and>
   totalMonthlyCost
     [\<lparr>subscription.cost = 12, billingCycle = ''Annually'', nextRenewalDate = Some 1736899200000,
       category = None, isAwaitingCancellation = False\<rparr>] = 1"
  by code_simp

text \<open>
  C1. The claim reads: the total monthly cost is the sum of the monthly rates of the
  subscriptions that are not awaiting cancellation. \<^verbatim>\<open>totalMonthlyCost\<close> folds over the whole
  list (\<open>totalMonthlyCost_sum\<close>): at a list of one subscription that awaits cancellation, of
  cost 10 billed Monthly, it is 10, where the sum over the active subscriptions is 0.
\<close>

theorem totalMonthlyCost_counts_awaiting_cancellation:
  "totalMonthlyCost
     [\<lparr>subscription.cost = 10, billingCycle = ''Monthly'', nextRenewalDate = Some 1736899200000,
       category = None, isAwaitingCancellation = True\<rparr>] = 10 \<and>
   (\<Sum>s\<leftarrow>filter (\<lambda>s. \<not> isAwaitingCancellation s)
        [\<lparr>subscription.cost = 10, billingCycle = ''Monthly'', nextRenewalDate = Some 1736899200000,
          category = None, isAwaitingCancellation = True\<rparr>].
      calculateMonthlyRate (subscription.cost s) (billingCycle s)) = 0"
  by (simp add: totalMonthlyCost_def calculateMonthlyRate_def)

section \<open>Properties of the forecaster\<close>






section \<open>Subscriptions with an unparseable renewal date\<close>

lemma monthSubCost_invalid:
  assumes "new_Date (nextRenewalDate sub) = None"
  shows "monthSubCost monthDate sub =
         (if billingCycle sub = ''Monthly'' then subscription.cost sub else 0)"
proof -
  have g: "getFullYear None = None" "getMonth None = None"
    by (simp_all add: getFullYear_def getMonth_def)
  have y: "new_Date_ymd None m d = None" for m d
    by (simp add: new_Date_ymd_def)
  have e: "num_eq a None = False" for a
    by (simp add: num_eq_def split: option.splits)
  have n: "new_Date None = None"
    by (simp add: new_Date_def)
  show ?thesis
    unfolding monthSubCost_def Let_def assms n g y
    by (simp add: loop_stops date_cmp e)
qed

lemma foldl_monthSubCost_skip:
  assumes "monthSubCost monthDate sub = 0"
  shows "foldl (\<lambda>total s. total + monthSubCost monthDate s) 0 (xs @ sub # ys) =
         foldl (\<lambda>total s. total + monthSubCost monthDate s) 0 (xs @ ys)"
  using assms by (simp add: foldl_plus_sum_list)

text \<open>
  C9, as amended. A subscription whose renewal date is unparseable is an Invalid Date in
  every comparison; no function of the engine has an error result. It has zero occurrences
  in the 12-month debt walk and never appears among the upcoming renewals. In the monthly
  trend it contributes nothing to any month unless its billing cycle is Monthly: then the
  fallback adds its full cost to the month.
\<close>

theorem invalid_renewal_date_excluded:
  assumes "new_Date (nextRenewalDate sub) = None"
  shows "calculateRenewalsInNext12Months now (nextRenewalDate sub) (billingCycle sub) = 0 \<and>
         sub \<notin> set (upcomingRenewals now subscriptions) \<and>
         monthSubCost monthDate sub =
           (if billingCycle sub = ''Monthly'' then subscription.cost sub else 0) \<and>
         (billingCycle sub \<noteq> ''Monthly'' \<longrightarrow>
            monthlyTrendData now (xs @ sub # ys) = monthlyTrendData now (xs @ ys))"
proof -
  have a: "calculateRenewalsInNext12Months now (nextRenewalDate sub) (billingCycle sub) = 0"
    unfolding calculateRenewals_window renewalsInWindow_def assms
    by (simp add: new_Date_def loop_stops date_cmp)
  have b: "sub \<notin> set (upcomingRenewals now subscriptions)"
    using assms by (simp add: upcomingRenewals_def Let_def date_cmp)
  have c: "monthSubCost d sub = (if billingCycle sub = ''Monthly'' then subscription.cost sub else 0)"
    for d
    using assms by (rule monthSubCost_invalid)
  have d: "monthlyTrendData now (xs @ sub # ys) = monthlyTrendData now (xs @ ys)"
    if "billingCycle sub \<noteq> ''Monthly''"
  proof -
    have "monthSubCost d sub = 0" for d
      using c [of d] that by simp
    then show ?thesis
      unfolding monthlyTrendData_def Let_def
      by (simp only: foldl_monthSubCost_skip)
  qed
  show ?thesis using a b c d by blast
qed

theorem invalid_renewal_date_excluded_witness:
  "new_Date (nextRenewalDate
      \<lparr>subscription.cost = 12, billingCycle = ''Annually'', nextRenewalDate = None,
        category = None, isAwaitingCancellation = False\<rparr>) = None \<and>
   ''Annually'' \<noteq> ''Monthly'' \<and>
   calculateRenewalsInNext12Months 1735689600000 None ''Annually'' = 0 \<and>
   monthlyTrendData 1735689600000
     [\<lparr>subscription.cost = 12, billingCycle = ''Annually'', nextRenewalDate = None,
       category = None, isAwaitingCancellation = False\<rparr>] = monthlyTrendData 1735689600000 []"
  using invalid_renewal_date_excluded [of
      "\<lparr>subscription.cost = 12, billingCycle = ''Annually'', nextRenewalDate = None,
        category = None, isAwaitingCancellation = False\<rparr>" 1735689600000 "[]" None "[]" "[]"]
  by (simp add: new_Date_def)

text \<open>
  The claim as stated lets such a subscription contribute nothing to the monthly trend. A
  Monthly subscription of cost 10 with an unparseable renewal date adds 10 to each of the
  12 months.
\<close>

theorem invalid_renewal_date_trend_counterexample:
  "map trendEntry.cost
     (monthlyTrendData 1735689600000
        [\<lparr>subscription.cost = 10, billingCycle = ''Monthly'', nextRenewalDate = None,
          category = None, isAwaitingCancellation = False\<rparr>]) =
     [10, 10, 10, 10, 10, 10, 10, 10, 10, 10, 10, 10] \<and>
   map trendEntry.cost (monthlyTrendData 1735689600000 []) =
     [0, 0, 0, 0, 0, 0, 0, 0, 0, 0, 0, 0]"
  by code_simp

section \<open>Properties of the calendar arithmetic\<close>

lemma div_bounds:
  fixes a m :: int
  assumes "0 < m"
  shows "m * (a div m) \<le> a \<and> a < m * (a div m) + m"
proof -
  have "a = m * (a div m) + a mod m" by simp
  moreover have "0 \<le> a mod m" "a mod m < m"
    using assms by simp_all
  ultimately show ?thesis by arith
qed

lemma DayFromYear_bounds:
  "146097 * (y - 1970) - 506 \<le> 400 * DayFromYear y \<and>
   400 * DayFromYear y \<le> 146097 * (y - 1970) + 589"
  using div_bounds [of 4 "y - 1969"] div_bounds [of 100 "y - 1901"] div_bounds [of 400 "y - 1601"]
  unfolding DayFromYear_def by simp

lemma div_step:
  fixes a m :: int
  assumes "0 < m"
  shows "(a + 1) div m = a div m + (if (a + 1) mod m = 0 then 1 else 0)"
proof -
  define q where "q = (a + 1) div m"
  define r where "r = (a + 1) mod m"
  have e: "m * q + r = a + 1"
    unfolding q_def r_def by (rule mult_div_mod_eq)
  have rr: "0 \<le> r" "r < m"
    unfolding r_def using assms by simp_all
  show ?thesis
  proof (cases "r = 0")
    case True
    have "m * (q - 1) = m * q - m"
      by (simp add: right_diff_distrib)
    then have "a = m * (q - 1) + (m - 1)"
      using e True by arith
    then have "a div m = q - 1"
      by (rule int_div_pos_eq) (use assms in simp_all)
    then show ?thesis using True unfolding q_def r_def by simp
  next
    case False
    have "a = m * q + (r - 1)"
      using e by arith
    moreover have "0 \<le> r - 1" "r - 1 < m"
      using rr False by arith+
    ultimately have "a div m = q"
      by (rule int_div_pos_eq)
    then show ?thesis using False unfolding q_def r_def by simp
  qed
qed

lemma mod_shift:
  fixes y :: int
  shows "(y - 1969 + 1) mod 4 = y mod 4" "(y - 1901 + 1) mod 100 = y mod 100"
    "(y - 1601 + 1) mod 400 = y mod 400"
proof -
  have "y - 1969 + 1 = y + 4 * (- 492)" "y - 1901 + 1 = y + 100 * (- 19)"
    "y - 1601 + 1 = y + 400 * (- 4)"
    by simp_all
  then show "(y - 1969 + 1) mod 4 = y mod 4" "(y - 1901 + 1) mod 100 = y mod 100"
    "(y - 1601 + 1) mod 400 = y mod 400"
    by (simp_all only: mod_mult_self2)
qed

lemma mod_400_100_4:
  fixes y :: int
  shows "y mod 400 = 0 \<Longrightarrow> y mod 100 = 0" "y mod 100 = 0 \<Longrightarrow> y mod 4 = 0"
proof -
  have "(100 :: int) dvd 400" "(4 :: int) dvd 100" by simp_all
  then show "y mod 400 = 0 \<Longrightarrow> y mod 100 = 0" "y mod 100 = 0 \<Longrightarrow> y mod 4 = 0"
    by (auto simp only: mod_eq_0_iff_dvd dest: dvd_trans)
qed

lemma DayFromYear_step: "DayFromYear (y + 1) = DayFromYear y + DaysInYear y"
proof -
  have a: "(y + 1 - 1969) div 4 = (y - 1969) div 4 + (if y mod 4 = 0 then 1 else 0)"
    using div_step [of 4 "y - 1969"] mod_shift(1) [of y] by (simp add: algebra_simps)
  have b: "(y + 1 - 1901) div 100 = (y - 1901) div 100 + (if y mod 100 = 0 then 1 else 0)"
    using div_step [of 100 "y - 1901"] mod_shift(2) [of y] by (simp add: algebra_simps)
  have c: "(y + 1 - 1601) div 400 = (y - 1601) div 400 + (if y mod 400 = 0 then 1 else 0)"
    using div_step [of 400 "y - 1601"] mod_shift(3) [of y] by (simp add: algebra_simps)
  show ?thesis
    unfolding DayFromYear_def DaysInYear_def a b c
    using mod_400_100_4 [of y] by auto
qed

lemma DaysInYear_cases: "DaysInYear y = 365 \<or> DaysInYear y = 366"
  by (simp add: DaysInYear_def)

text \<open>\<open>YearFromTime\<close> is the year that holds the day, as the standard defines it.\<close>

lemma YearFromTime_bounds:
  "DayFromYear (YearFromTime t) \<le> Day t \<and> Day t < DayFromYear (YearFromTime t + 1)"
proof -
  define d where "d = Day t"
  define e where "e = (400 * d) div 146097"
  have e: "146097 * e \<le> 400 * d \<and> 400 * d < 146097 * e + 146097"
    unfolding e_def by (rule div_bounds) simp
  have "400 * DayFromYear (1970 + e - 1) \<le> 146097 * e - 145508"
    using DayFromYear_bounds [of "1970 + e - 1"] by (simp add: algebra_simps)
  then have lo: "DayFromYear (1970 + e - 1) \<le> d"
    using e by linarith
  have "146097 * e + 291688 \<le> 400 * DayFromYear (1970 + e + 1 + 1)"
    using DayFromYear_bounds [of "1970 + e + 1 + 1"] by (simp add: algebra_simps)
  then have hi: "d < DayFromYear (1970 + e + 1 + 1)"
    using e by linarith
  have y: "YearFromTime t =
      (if DayFromYear (1970 + e + 1) \<le> d then 1970 + e + 1
       else if DayFromYear (1970 + e) \<le> d then 1970 + e else 1970 + e - 1)"
    unfolding YearFromTime_def Let_def d_def [symmetric] e_def [symmetric] by simp
  show ?thesis
    unfolding d_def [symmetric] y using lo hi by auto
qed

lemma YearFromTime_largest:
  assumes "DayFromYear y \<le> Day t"
  shows "y \<le> YearFromTime t"
proof (rule ccontr)
  assume "\<not> y \<le> YearFromTime t"
  then have "YearFromTime t + 1 \<le> y" by simp
  moreover have mono: "a \<le> b \<Longrightarrow> DayFromYear a \<le> DayFromYear b" for a b
  proof -
    assume "a \<le> b"
    then obtain k where "b = a + int k"
      by (metis zle_iff_zadd)
    moreover have "DayFromYear a \<le> DayFromYear (a + int k)"
    proof (induction k)
      case 0
      show ?case by simp
    next
      case (Suc k)
      have "DayFromYear (a + int (Suc k)) = DayFromYear (a + int k) + DaysInYear (a + int k)"
        using DayFromYear_step [of "a + int k"] by (simp add: algebra_simps)
      then show ?case using Suc DaysInYear_cases [of "a + int k"] by arith
    qed
    ultimately show ?thesis by simp
  qed
  ultimately have "DayFromYear (YearFromTime t + 1) \<le> DayFromYear y" by blast
  then show False using assms YearFromTime_bounds [of t] by arith
qed

lemma InLeapYear_DaysInYear: "DaysInYear (YearFromTime t) = 365 + InLeapYear t"
  using DaysInYear_cases [of "YearFromTime t"] by (auto simp: InLeapYear_def)

lemma InLeapYear_cases: "InLeapYear t = 0 \<or> InLeapYear t = 1"
  by (simp add: InLeapYear_def)

lemma DayWithinYear_range: "0 \<le> DayWithinYear t \<and> DayWithinYear t < 365 + InLeapYear t"
  using YearFromTime_bounds [of t] DayFromYear_step [of "YearFromTime t"]
  unfolding DayWithinYear_def InLeapYear_DaysInYear by arith

lemma MonthFromTime_range: "0 \<le> MonthFromTime t \<and> MonthFromTime t \<le> 11"
  by (simp add: MonthFromTime_def Let_def)

text \<open>The day lies in its month: not before the first day, and less than 31 days after it.\<close>

lemma month_holds_day:
  "monthStartDay (MonthFromTime t) (InLeapYear t) \<le> DayWithinYear t \<and>
   DayWithinYear t < monthStartDay (MonthFromTime t) (InLeapYear t) + 31"
proof -
  define d where "d = DayWithinYear t"
  define l where "l = InLeapYear t"
  have r: "0 \<le> d" "d < 365 + l" "l = 0 \<or> l = 1"
    using DayWithinYear_range [of t] InLeapYear_cases [of t] by (simp_all add: d_def l_def)
  show ?thesis
    unfolding MonthFromTime_def monthStartDay_def Let_def d_def [symmetric] l_def [symmetric]
    using r by (auto split: if_splits)
qed

lemma month_enum:
  fixes m :: int
  assumes "0 \<le> m \<and> m \<le> 11"
  shows "m = 0 \<or> m = 1 \<or> m = 2 \<or> m = 3 \<or> m = 4 \<or> m = 5 \<or> m = 6 \<or> m = 7 \<or> m = 8 \<or>
         m = 9 \<or> m = 10 \<or> m = 11"
  using assms by arith

text \<open>
  Day 0 of the third month after month \<open>m\<close> of year \<open>y\<close> is the last day of the second
  month after it: at least 88 days after the first day of month \<open>m\<close>.
\<close>

lemma quarter_end_day:
  assumes "0 \<le> m \<and> m \<le> 11"
  shows "DayFromYear y + monthStartDay m (if DaysInYear y = 366 then 1 else 0) + 88
         \<le> MakeDay y (m + 3) 0"
proof -
  have s: "DayFromYear (y + 1) = DayFromYear y + DaysInYear y"
    by (rule DayFromYear_step)
  have c: "DaysInYear y = 365 \<or> DaysInYear y = 366" "DaysInYear (y + 1) = 365 \<or> DaysInYear (y + 1) = 366"
    by (rule DaysInYear_cases)+
  from month_enum [OF assms] show ?thesis
  proof (elim disjE)
    assume "m = 0" then show ?thesis using c by (auto simp: MakeDay_def monthStartDay_def)
  next
    assume "m = 1" then show ?thesis using c by (auto simp: MakeDay_def monthStartDay_def)
  next
    assume "m = 2" then show ?thesis using c by (auto simp: MakeDay_def monthStartDay_def)
  next
    assume "m = 3" then show ?thesis using c by (auto simp: MakeDay_def monthStartDay_def)
  next
    assume "m = 4" then show ?thesis using c by (auto simp: MakeDay_def monthStartDay_def)
  next
    assume "m = 5" then show ?thesis using c by (auto simp: MakeDay_def monthStartDay_def)
  next
    assume "m = 6" then show ?thesis using c by (auto simp: MakeDay_def monthStartDay_def)
  next
    assume "m = 7" then show ?thesis using c by (auto simp: MakeDay_def monthStartDay_def)
  next
    assume "m = 8" then show ?thesis using c by (auto simp: MakeDay_def monthStartDay_def)
  next
    assume "m = 9" then show ?thesis using c s by (auto simp: MakeDay_def monthStartDay_def)
  next
    assume "m = 10" then show ?thesis using c s by (auto simp: MakeDay_def monthStartDay_def)
  next
    assume "m = 11" then show ?thesis using c s by (auto simp: MakeDay_def monthStartDay_def)
  qed
qed

lemma DayFromYear_century_gap: "DayFromYear y + 1 \<le> DayFromYear (1900 + y)"
proof -
  have "400 * DayFromYear y \<le> 146097 * y - 287810501"
    using DayFromYear_bounds [of y] by (simp add: algebra_simps)
  moreover have "146097 * y - 10227296 \<le> 400 * DayFromYear (1900 + y)"
    using DayFromYear_bounds [of "1900 + y"] by (simp add: algebra_simps)
  ultimately show ?thesis by linarith
qed

lemma monthStartDay_leap: "monthStartDay m 0 \<le> monthStartDay m l \<and> monthStartDay m l \<le> monthStartDay m 0 + 1"
  if "l = 0 \<or> l = 1"
  using that by (auto simp: monthStartDay_def)

lemma MakeDay_century: "MakeDay y m dt \<le> MakeDay (1900 + y) m dt"
proof -
  have a: "DayFromYear (y + m div 12) + 1 \<le> DayFromYear (1900 + y + m div 12)"
    using DayFromYear_century_gap [of "y + m div 12"] by (simp add: algebra_simps)
  have b: "monthStartDay (m mod 12) (if DaysInYear (y + m div 12) = 366 then 1 else 0)
           \<le> monthStartDay (m mod 12) 0 + 1"
    using monthStartDay_leap [of "if DaysInYear (y + m div 12) = 366 then 1 else 0" "m mod 12"]
    by simp
  have c: "monthStartDay (m mod 12) 0
           \<le> monthStartDay (m mod 12) (if DaysInYear (1900 + y + m div 12) = 366 then 1 else 0)"
    using monthStartDay_leap [of "if DaysInYear (1900 + y + m div 12) = 366 then 1 else 0" "m mod 12"]
    by simp
  show ?thesis
    unfolding MakeDay_def Let_def using a b c by linarith
qed

lemma Day_bounds: "Day t * msPerDay \<le> t \<and> t < Day t * msPerDay + msPerDay"
  using div_bounds [of msPerDay t] by (simp add: Day_def msPerDay_def mult.commute)

text \<open>
  The date a Quarterly subscription is compared with, when it is a valid date, is after the
  renewal date: it is the last day of the second month after the month of the renewal.
\<close>

lemma anchor_before_quarterCutoff:
  assumes "quarterCutoff (Some t) = Some c"
  shows "t < c"
proof -
  define lt where "lt = LocalTime t"
  define Y where "Y = YearFromTime lt"
  define M where "M = MonthFromTime lt"
  define yr where "yr = (if 0 \<le> Y \<and> Y \<le> 99 then 1900 + Y else Y)"
  have "TimeClip (UTC (MakeDate (MakeDay yr (M + 3) 0) 0)) = Some c"
    using assms
    by (auto simp: quarterCutoff_def getFullYear_def getMonth_def num_add_def new_Date_ymd_def
        Let_def lt_def Y_def M_def yr_def split: if_splits)
  then have c: "c = MakeDay yr (M + 3) 0 * msPerDay - LocalTZA"
    by (simp add: TimeClip_def UTC_def MakeDate_def split: if_splits)
  have "MakeDay Y (M + 3) 0 \<le> MakeDay yr (M + 3) 0"
    unfolding yr_def using MakeDay_century [of Y "M + 3" 0] by simp
  moreover have "DayFromYear Y + monthStartDay M (InLeapYear lt) + 88 \<le> MakeDay Y (M + 3) 0"
    using quarter_end_day [of M Y] MonthFromTime_range [of lt]
    by (simp add: M_def Y_def InLeapYear_def)
  moreover have "Day lt < DayFromYear Y + monthStartDay M (InLeapYear lt) + 31"
    using month_holds_day [of lt] by (simp add: DayWithinYear_def Y_def M_def)
  ultimately have "Day lt + 1 \<le> MakeDay yr (M + 3) 0"
    by linarith
  then have "(Day lt + 1) * msPerDay \<le> MakeDay yr (M + 3) 0 * msPerDay"
    by (rule mult_right_mono) (simp add: msPerDay_def)
  moreover have "lt < (Day lt + 1) * msPerDay"
    using Day_bounds [of lt] by (simp add: algebra_simps)
  ultimately show ?thesis
    unfolding c using lt_def by (simp add: LocalTime_def)
qed

section \<open>Properties of the monthly trend\<close>

lemma monthSubCost_cases:
  "monthSubCost monthDate sub =
     (let n = renewalsInWindow (billingCycle sub) (new_Date (nextRenewalDate sub))
                (monthWindowStart monthDate) (monthWindowEnd monthDate)
      in if n > 0 then subscription.cost sub * of_nat n
         else if billingCycle sub = ''Monthly'' then subscription.cost sub
         else if billingCycle sub = ''Quarterly'' \<and>
                 date_le monthDate (quarterCutoff (new_Date (nextRenewalDate sub)))
              then subscription.cost sub / 3
         else if billingCycle sub = ''Annually'' \<and>
                 num_eq (getFullYear monthDate) (getFullYear (new_Date (nextRenewalDate sub)))
              then subscription.cost sub / 12
         else 0)"
  by (simp add: monthSubCost_def renewalsInWindow_def monthWindowStart_def monthWindowEnd_def
      quarterCutoff_def new_Date_idem Let_def)





text \<open>
  C10, as amended. For a Quarterly subscription with a valid renewal date and no occurrence
  of its walk in the window of a month, the month receives a third of the cost when its
  first day is not after the last day of the second calendar month after the month of the
  renewal date, and 0 when it is after it. There is no lower bound: every month that starts
  on or before the renewal date and ends before it receives a third of the cost, however
  far before the renewal date it lies.
\<close>

theorem quarterly_fallback_cutoff:
  assumes "billingCycle sub = ''Quarterly''" "new_Date (nextRenewalDate sub) = Some anchor"
  shows "(renewalsInWindow ''Quarterly'' (Some anchor)
            (monthWindowStart monthDate) (monthWindowEnd monthDate) = 0 \<longrightarrow>
          monthSubCost monthDate sub =
            (if date_le monthDate (quarterCutoff (Some anchor))
             then subscription.cost sub / 3 else 0)) \<and>
         (quarterCutoff (Some anchor) \<noteq> None \<and> date_le monthDate (Some anchor) \<and>
          \<not> date_le (Some anchor) (monthWindowEnd monthDate) \<longrightarrow>
          monthSubCost monthDate sub = subscription.cost sub / 3)"
proof -
  have q: "''Quarterly'' \<noteq> ''Monthly''" by simp
  have a: "monthSubCost monthDate sub =
           (if date_le monthDate (quarterCutoff (Some anchor)) then subscription.cost sub / 3 else 0)"
    if "renewalsInWindow ''Quarterly'' (Some anchor)
          (monthWindowStart monthDate) (monthWindowEnd monthDate) = 0"
    using that assms q by (simp add: monthSubCost_cases)
  have b: "monthSubCost monthDate sub = subscription.cost sub / 3"
    if h: "quarterCutoff (Some anchor) \<noteq> None" "date_le monthDate (Some anchor)"
      "\<not> date_le (Some anchor) (monthWindowEnd monthDate)"
  proof -
    have n: "new_Date (Some anchor) = Some anchor"
      using new_Date_idem [of "nextRenewalDate sub"] assms(2) by simp
    have z: "renewalsInWindow ''Quarterly'' (Some anchor)
               (monthWindowStart monthDate) (monthWindowEnd monthDate) = 0"
      using h(3) by (simp add: renewalsInWindow_def n loop_stops)
    obtain c where c: "quarterCutoff (Some anchor) = Some c"
      using h(1) by auto
    obtain m where m: "monthDate = Some m" "m \<le> anchor"
      using h(2) by (cases monthDate) (simp_all add: date_cmp)
    have "anchor < c"
      using c by (rule anchor_before_quarterCutoff)
    then have "date_le monthDate (quarterCutoff (Some anchor))"
      using m c by (simp add: date_cmp)
    then show ?thesis using a [OF z] by simp
  qed
  show ?thesis using a b by blast
qed

theorem quarterly_fallback_cutoff_witness:
  "new_Date (Some 1797292800000) = Some 1797292800000 \<and>
   renewalsInWindow ''Quarterly'' (Some 1797292800000)
     (monthWindowStart (Some 1735689600000)) (monthWindowEnd (Some 1735689600000)) = 0 \<and>
   quarterCutoff (Some 1797292800000) \<noteq> None \<and>
   date_le (Some 1735689600000) (Some 1797292800000) \<and>
   \<not> date_le (Some 1797292800000) (monthWindowEnd (Some 1735689600000)) \<and>
   monthSubCost (Some 1735689600000)
     \<lparr>subscription.cost = 30, billingCycle = ''Quarterly'', nextRenewalDate = Some 1797292800000,
       category = None, isAwaitingCancellation = False\<rparr> = 30 / 3"
proof -
  let ?s = "\<lparr>subscription.cost = 30, billingCycle = ''Quarterly'',
             nextRenewalDate = Some 1797292800000, category = None,
             isAwaitingCancellation = False\<rparr>"
  have a: "billingCycle ?s = ''Quarterly''" by simp
  have b: "new_Date (nextRenewalDate ?s) = Some 1797292800000" by code_simp
  have c: "quarterCutoff (Some 1797292800000) \<noteq> None" by code_simp
  have d: "date_le (Some 1735689600000) (Some 1797292800000)" by code_simp
  have e: "\<not> date_le (Some 1797292800000) (monthWindowEnd (Some 1735689600000))" by code_simp
  have z: "renewalsInWindow ''Quarterly'' (Some 1797292800000)
     (monthWindowStart (Some 1735689600000)) (monthWindowEnd (Some 1735689600000)) = 0"
    by code_simp
  from quarterly_fallback_cutoff [OF a b, of "Some 1735689600000"] c d e
  have "monthSubCost (Some 1735689600000) ?s = subscription.cost ?s / 3"
    by blast
  then show ?thesis using b c d e z by simp
qed

text \<open>
  The claim as stated puts the cutoff at the last day of the third calendar month after the
  month of the anchor. For an anchor of 31 January 2025 that is 30 April 2025; the walk
  (31 January, 1 May) has no occurrence in April, the first day of April is before
  30 April, and a Quarterly subscription of cost 30 contributes 0 to April.
\<close>

theorem quarterly_fallback_cutoff_counterexample:
  "renewalsInWindow ''Quarterly'' (Some 1738281600000)
     (monthWindowStart (Some 1743465600000)) (monthWindowEnd (Some 1743465600000)) = 0 \<and>
   new_Date_ymd (getFullYear (Some 1738281600000)) (num_add (getMonth (Some 1738281600000)) 4) 0 =
     Some 1745971200000 \<and>
   date_le (Some 1743465600000) (Some 1745971200000) \<and>
   monthSubCost (Some 1743465600000)
     \<lparr>subscription.cost = 30, billingCycle = ''Quarterly'', nextRenewalDate = Some 1738281600000,
       category = None, isAwaitingCancellation = False\<rparr> = 0"
  by code_simp

section \<open>Properties of the category breakdown\<close>

lemma obj_get_obj_set:
  "obj_get (obj_set m k v) k' = (if k' = k then Some v else obj_get m k')"
  by (induction m k v rule: obj_set.induct) auto

lemma keys_obj_set: "fst ` set (obj_set m k v) = insert k (fst ` set m)"
  by (induction m k v rule: obj_set.induct) auto

lemma distinct_obj_set:
  "distinct (map fst m) \<Longrightarrow> distinct (map fst (obj_set m k v))"
proof (induction m)
  case Nil
  show ?case by simp
next
  case (Cons p m)
  obtain k' v' where p: "p = (k', v')" by (cases p)
  show ?case
    using Cons keys_obj_set [of m k v] unfolding p by auto
qed

lemma obj_get_None: "obj_get m k = None \<longleftrightarrow> k \<notin> fst ` set m"
  by (induction m k rule: obj_get.induct) auto

lemma obj_get_Some:
  "distinct (map fst m) \<Longrightarrow> obj_get m k = Some v \<longleftrightarrow> (k, v) \<in> set m"
proof (induction m)
  case Nil
  show ?case by simp
next
  case (Cons p m)
  obtain k' v' where p: "p = (k', v')" by (cases p)
  show ?case
    using Cons unfolding p by (auto simp: rev_image_eqI)
qed

text \<open>One step of the \<^verbatim>\<open>forEach\<close> adds the monthly rate to the entry of the category.\<close>

lemma obj_get_categoryStep:
  "obj_get (categoryStep m sub) k =
     (if k = category_or_default sub
      then Some (num_of (obj_get m k) +
                 calculateMonthlyRate (subscription.cost sub) (billingCycle sub))
      else obj_get m k)"
  by (auto simp: categoryStep_def Let_def obj_get_obj_set falsy_def num_of_def
      split: option.splits)

lemma keys_categoryStep:
  "fst ` set (categoryStep m sub) = insert (category_or_default sub) (fst ` set m)"
  by (auto simp: categoryStep_def Let_def keys_obj_set)

lemma distinct_categoryStep:
  "distinct (map fst m) \<Longrightarrow> distinct (map fst (categoryStep m sub))"
  by (simp add: categoryStep_def Let_def distinct_obj_set)

lemma obj_get_fold:
  "obj_get (foldl categoryStep m subs) k =
     (if k \<in> category_or_default ` set subs
      then Some (num_of (obj_get m k) +
                 (\<Sum>s\<leftarrow>filter (\<lambda>s. category_or_default s = k) subs.
                    calculateMonthlyRate (subscription.cost s) (billingCycle s)))
      else obj_get m k)"
proof (induction subs arbitrary: m)
  case Nil
  show ?case by simp
next
  case (Cons sub subs)
  show ?case
  proof (cases "k \<in> category_or_default ` set subs")
    case True
    then show ?thesis
      unfolding foldl_Cons Cons.IH [of "categoryStep m sub"] obj_get_categoryStep
      by (auto simp: num_of_def add.assoc)
  next
    case False
    then have "filter (\<lambda>s. category_or_default s = k) subs = []"
      by (auto simp: filter_empty_conv)
    then show ?thesis
      using False
      unfolding foldl_Cons Cons.IH [of "categoryStep m sub"] obj_get_categoryStep
      by (auto simp: num_of_def)
  qed
qed

lemma keys_fold:
  "fst ` set (foldl categoryStep m subs) = fst ` set m \<union> category_or_default ` set subs"
  by (induction subs arbitrary: m) (auto simp: keys_categoryStep)

lemma distinct_fold:
  "distinct (map fst m) \<Longrightarrow> distinct (map fst (foldl categoryStep m subs))"
  by (induction subs arbitrary: m) (simp_all add: distinct_categoryStep)

text \<open>\<^verbatim>\<open>Object.entries\<close> lists every entry once.\<close>

lemma set_Object_entries: "set (Object_entries m) = set m"
  by (auto simp: Object_entries_def)

lemma distinct_Object_entries:
  assumes "distinct (map fst m)"
  shows "distinct (map fst (Object_entries m))"
proof -
  have d: "distinct m"
    using assms by (rule distinct_map [THEN iffD1, THEN conjunct1])
  have i: "inj_on fst (set m)"
    using assms by (simp add: distinct_map)
  have "distinct (Object_entries m)"
    using d by (auto simp: Object_entries_def)
  moreover have "inj_on fst (set (Object_entries m))"
    using i by (simp add: set_Object_entries)
  ultimately show ?thesis by (simp add: distinct_map)
qed

text \<open>
  What \<^verbatim>\<open>categoryBreakdown\<close> computes, for every list: one entry for each category that
  occurs in the whole list, with the rounded sum of the monthly rates of all the
  subscriptions of the category, in descending order of value.
\<close>

lemma categoryBreakdown_groups:
  "sorted (map (\<lambda>e. - value e) (categoryBreakdown subs)) \<and>
   distinct (map name (categoryBreakdown subs)) \<and>
   set (map name (categoryBreakdown subs)) = category_or_default ` set subs \<and>
   (\<forall>e \<in> set (categoryBreakdown subs).
      value e = toFixed2 (\<Sum>s\<leftarrow>filter (\<lambda>s. category_or_default s = name e) subs.
                            calculateMonthlyRate (subscription.cost s) (billingCycle s)))"
proof -
  define m where "m = foldl categoryStep [] subs"
  define es where "es = map (\<lambda>(name', value'). \<lparr>name = name', value = toFixed2 value'\<rparr>)
                          (Object_entries m)"
  have cb: "categoryBreakdown subs = sort_key (\<lambda>e. - value e) es"
    by (simp add: categoryBreakdown_def Let_def m_def es_def)
  have dm: "distinct (map fst m)"
    unfolding m_def by (rule distinct_fold) simp
  have names: "map name es = map fst (Object_entries m)"
    by (simp add: es_def case_prod_unfold)
  have a: "sorted (map (\<lambda>e. - value e) (categoryBreakdown subs))"
    unfolding cb by (rule sorted_sort_key)
  have des: "distinct (map name es)"
    unfolding names using dm by (rule distinct_Object_entries)
  have b: "distinct (map name (categoryBreakdown subs))"
    unfolding cb using des by (simp add: distinct_map)
  have c: "set (map name (categoryBreakdown subs)) = category_or_default ` set subs"
  proof -
    have "set (map name (categoryBreakdown subs)) = name ` set es"
      unfolding cb by simp
    also have "\<dots> = fst ` set m"
      using names set_Object_entries [of m] by (metis list.set_map)
    also have "\<dots> = category_or_default ` set subs"
      unfolding m_def by (simp add: keys_fold)
    finally show ?thesis .
  qed
  have d: "value e = toFixed2 (\<Sum>s\<leftarrow>filter (\<lambda>s. category_or_default s = name e) subs.
                            calculateMonthlyRate (subscription.cost s) (billingCycle s))"
    if "e \<in> set (categoryBreakdown subs)" for e
  proof -
    have "e \<in> set es" using that unfolding cb by simp
    then obtain k v where kv: "(k, v) \<in> set m" "e = \<lparr>name = k, value = toFixed2 v\<rparr>"
      unfolding es_def by (auto simp: set_Object_entries)
    have "obj_get m k = Some v"
      using kv(1) dm by (simp add: obj_get_Some)
    moreover have "k \<in> category_or_default ` set subs"
      using kv(1) keys_fold [of "[]" subs] unfolding m_def by force
    ultimately have "v = (\<Sum>s\<leftarrow>filter (\<lambda>s. category_or_default s = k) subs.
                            calculateMonthlyRate (subscription.cost s) (billingCycle s))"
      unfolding m_def obj_get_fold by (simp add: num_of_def)
    then show ?thesis using kv(2) by simp
  qed
  show ?thesis using a b c d by blast
qed

text \<open>
  C2. The claim reads: the category breakdown is computed from exactly the subscriptions
  that are not awaiting cancellation. \<^verbatim>\<open>categoryBreakdown\<close> groups the whole list
  (\<open>categoryBreakdown_groups\<close>): at a list of one subscription that awaits cancellation, of
  category Streaming and cost 10 billed Monthly, it has the entry Streaming with value 10,
  where the breakdown of the active subscriptions is empty.
\<close>

theorem categoryBreakdown_counts_awaiting_cancellation:
  "categoryBreakdown
     [\<lparr>subscription.cost = 10, billingCycle = ''Monthly'', nextRenewalDate = Some 1736899200000,
       category = Some ''Streaming'', isAwaitingCancellation = True\<rparr>] =
     [\<lparr>name = ''Streaming'', value = 10\<rparr>] \<and>
   categoryBreakdown
     (filter (\<lambda>s. \<not> isAwaitingCancellation s)
        [\<lparr>subscription.cost = 10, billingCycle = ''Monthly'', nextRenewalDate = Some 1736899200000,
          category = Some ''Streaming'', isAwaitingCancellation = True\<rparr>]) = []"
  by code_simp

text \<open>
  A worked breakdown: the empty category takes the default name, the entries are in
  descending order of the rounded value.
\<close>

lemma categoryBreakdown_example:
  "categoryBreakdown
     [\<lparr>subscription.cost = 10, billingCycle = ''Monthly'', nextRenewalDate = None,
       category = Some ''A'', isAwaitingCancellation = False\<rparr>,
      \<lparr>subscription.cost = 10, billingCycle = ''Quarterly'', nextRenewalDate = None,
       category = Some ''B'', isAwaitingCancellation = False\<rparr>,
      \<lparr>subscription.cost = 30, billingCycle = ''Monthly'', nextRenewalDate = None,
       category = Some [], isAwaitingCancellation = False\<rparr>,
      \<lparr>subscription.cost = 6, billingCycle = ''Annually'', nextRenewalDate = None,
       category = Some ''A'', isAwaitingCancellation = False\<rparr>] =
     [\<lparr>name = ''Uncategorized'', value = 30\<rparr>, \<lparr>name = ''A'', value = 21 / 2\<rparr>,
      \<lparr>name = ''B'', value = 333 / 100\<rparr>]"
  by code_simp

section \<open>The dates of the occurrence walk\<close>

text \<open>
  The visited dates are the dates \<open>anchor + k * period\<close> that are not after the end of the
  window, in ascending order.
\<close>

lemma visitedDates_set:
  assumes "0 < p"
  shows "set (visitedDates a p we) = {d. \<exists>k :: nat. d = a + int k * p \<and> d \<le> we}"
proof -
  define q where "q = (we - a) div p"
  have b: "p * q \<le> we - a" "we - a < p * q + p"
    using div_bounds [OF assms, of "we - a"] by (simp_all add: q_def)
  have k: "a + int k * p \<le> we \<longleftrightarrow> k < nat (q + 1)" for k :: nat
  proof
    assume "a + int k * p \<le> we"
    then have "p * int k < p * (q + 1)"
      using b(2) by (simp add: algebra_simps)
    then have "int k < q + 1"
      using assms by (simp add: mult_less_cancel_left_pos)
    then show "k < nat (q + 1)" by linarith
  next
    assume "k < nat (q + 1)"
    then have "int k \<le> q" by linarith
    then have "p * int k \<le> p * q"
      using assms by (simp add: mult_le_cancel_left_pos)
    then show "a + int k * p \<le> we"
      using b(1) by (simp add: algebra_simps)
  qed
  have "set (visitedDates a p we) = (\<lambda>k. a + int k * p) ` {k. k < nat (q + 1)}"
    by (auto simp: visitedDates_def q_def)
  also have "\<dots> = {d. \<exists>k :: nat. d = a + int k * p \<and> d \<le> we}"
    using k by auto
  finally show ?thesis .
qed

lemma visitedDates_sorted:
  assumes "0 < p"
  shows "sorted (visitedDates a p we) \<and> distinct (visitedDates a p we)"
proof -
  have "strict_mono_on UNIV (\<lambda>k :: nat. a + int k * p)"
    using assms by (simp add: strict_mono_on_def)
  then have m: "strict_mono (\<lambda>k :: nat. a + int k * p)"
    by (simp add: strict_mono_on_def strict_mono_def)
  have "sorted_wrt (<) (map (\<lambda>k :: nat. a + int k * p) [0 ..< n])" for n
    using m by (simp add: sorted_wrt_map strict_mono_def sorted_wrt_iff_nth_less)
  then show ?thesis
    unfolding visitedDates_def
    using strict_sorted_iff [of "map (\<lambda>k :: nat. a + int k * p) [0 ..< nat ((we - a) div p + 1)]"]
    by simp
qed

end
